theory Spec2Isabelle
  imports Complex_Main
begin

section \<open>JavaScript values\<close>

text \<open>
  A JavaScript string is a sequence of UTF-16 code units. The code units are kept as
  natural numbers, so that characters above U+00FF (which \<open>btoa\<close> refuses) can be
  told apart from Latin-1 ones. \<open>lit\<close> turns an ASCII literal into such a string.
\<close>

type_synonym jstring = "nat list"

definition lit :: "string \<Rightarrow> jstring" where
  "lit s = map of_char s"

text \<open>
  The values \<open>JSON.parse\<close> and \<open>request.json()\<close> produce. A number is a
  rational: every finite double is one, and on them truthiness, equality and order are
  exact. (JSON has no NaN; a literal beyond the range of a double would be an infinity,
  which is not modelled.) An object keeps its members in the order of the text,
  duplicates included.
\<close>

datatype json =
    JNull
  | JBool bool
  | JNum rat
  | JStr jstring
  | JArr "json list"
  | JObj "(jstring \<times> json) list"

text \<open>
  What the code can throw: the three exceptions of the built-ins used, and the two
  \<open>new Error(...)\<close> of \<open>verifyToken\<close> (invalid token format, token expired).
\<close>

datatype exn =
    TypeError
  | SyntaxError
  | InvalidCharacterError
  | InvalidTokenFormat
  | TokenExpired

text \<open>
  Property access \<open>v.k\<close> for a name \<open>k\<close> that no prototype defines (the source reads
  \<open>exp\<close>, \<open>id\<close> and \<open>order_num\<close>): \<open>null.k\<close> throws a TypeError, an object yields
  its own member (the last one of that name wins) and every other value yields
  \<open>undefined\<close>, written \<open>None\<close>.
\<close>

fun get_prop :: "json \<Rightarrow> jstring \<Rightarrow> exn + json option" where
  "get_prop JNull k = Inl TypeError"
| "get_prop (JObj ms) k = Inr (map_of (rev ms) k)"
| "get_prop v k = Inr None"

text \<open>
  \<open>ToBoolean\<close> and \<open>typeof v === "number"\<close> on a value that may be \<open>undefined\<close>.
\<close>

fun truthy :: "json option \<Rightarrow> bool" where
  "truthy None = False"
| "truthy (Some JNull) = False"
| "truthy (Some (JBool b)) = b"
| "truthy (Some (JNum q)) = (q \<noteq> 0)"
| "truthy (Some (JStr s)) = (s \<noteq> [])"
| "truthy (Some (JArr vs)) = True"
| "truthy (Some (JObj ms)) = True"


text \<open>
  The comparison \<open>v < n\<close> with a number \<open>n\<close> on the right. \<open>undefined\<close> becomes
  NaN, \<open>null\<close> 0, \<open>true\<close> 1 and \<open>false\<close> 0. For a string, an array or an object
  the language converts through \<open>ToPrimitive\<close> and \<open>StringToNumber\<close> to a float;
  that conversion is not modelled and is the parameter \<open>js_less\<close>.
\<close>

fun less_than :: "(json \<Rightarrow> int \<Rightarrow> bool) \<Rightarrow> json option \<Rightarrow> int \<Rightarrow> bool" where
  "less_than js_less None n = False"
| "less_than js_less (Some JNull) n = (0 < n)"
| "less_than js_less (Some (JBool b)) n = ((if b then 1 else 0) < n)"
| "less_than js_less (Some (JNum q)) n = (q < of_int n)"
| "less_than js_less (Some v) n = js_less v n"

text \<open>
  Array destructuring \<open>const [a, b, c] = xs\<close> reads \<open>xs[0]\<close>, \<open>xs[1]\<close>, \<open>xs[2]\<close>;
  an index past the end yields \<open>undefined\<close>. \<open>!s\<close> on such a string holds for
  \<open>undefined\<close> and for the empty string.
\<close>

definition element :: "'a list \<Rightarrow> nat \<Rightarrow> 'a option" where
  "element xs i = (if i < length xs then Some (xs ! i) else None)"

fun nonempty :: "jstring option \<Rightarrow> bool" where
  "nonempty None = False"
| "nonempty (Some s) = (s \<noteq> [])"

section \<open>The built-ins the code calls\<close>

subsection \<open>\<open>String.prototype.split\<close> with a one-character separator\<close>

fun split_on :: "nat \<Rightarrow> jstring \<Rightarrow> jstring list" where
  "split_on sep [] = [[]]"
| "split_on sep (c # cs) =
     (if c = sep then [] # split_on sep cs
      else (case split_on sep cs of [] \<Rightarrow> [[c]] | x # xs \<Rightarrow> (c # x) # xs))"

subsection \<open>\<open>btoa\<close> and \<open>atob\<close>\<close>

text \<open>
  \<open>btoa\<close> throws an InvalidCharacterError on a code unit above U+00FF and otherwise
  returns the padded base64 text of the bytes. \<open>atob\<close> is the forgiving decoder of the
  HTML standard: ASCII whitespace is dropped, one or two closing \<open>=\<close> are dropped from
  a text whose length is a multiple of four, a length of 1 modulo 4 or any character
  outside the alphabet is an InvalidCharacterError, and leftover bits are discarded.
\<close>

definition b64_char :: "nat \<Rightarrow> nat" where
  "b64_char i = (if i < 26 then 65 + i else if i < 52 then 97 + (i - 26)
                 else if i < 62 then 48 + (i - 52) else if i = 62 then 43 else 47)"

definition b64_value :: "nat \<Rightarrow> nat option" where
  "b64_value c = (if 65 \<le> c \<and> c \<le> 90 then Some (c - 65)
                  else if 97 \<le> c \<and> c \<le> 122 then Some (c - 97 + 26)
                  else if 48 \<le> c \<and> c \<le> 57 then Some (c - 48 + 52)
                  else if c = 43 then Some 62 else if c = 47 then Some 63 else None)"

fun b64_encode :: "nat list \<Rightarrow> jstring" where
  "b64_encode (a # b # c # rest) =
     b64_char (a div 4) # b64_char ((a mod 4) * 16 + b div 16)
       # b64_char ((b mod 16) * 4 + c div 64) # b64_char (c mod 64) # b64_encode rest"
| "b64_encode [a, b] =
     [b64_char (a div 4), b64_char ((a mod 4) * 16 + b div 16), b64_char ((b mod 16) * 4), 61]"
| "b64_encode [a] = [b64_char (a div 4), b64_char ((a mod 4) * 16), 61, 61]"
| "b64_encode [] = []"

definition btoa :: "jstring \<Rightarrow> exn + jstring" where
  "btoa s = (if \<exists>c \<in> set s. 255 < c then Inl InvalidCharacterError else Inr (b64_encode s))"

fun b64_decode :: "nat list \<Rightarrow> nat list" where
  "b64_decode (a # b # c # d # rest) =
     (a * 4 + b div 16) # ((b mod 16) * 16 + c div 4) # ((c mod 4) * 64 + d) # b64_decode rest"
| "b64_decode [a, b, c] = [a * 4 + b div 16, (b mod 16) * 16 + c div 4]"
| "b64_decode [a, b] = [a * 4 + b div 16]"
| "b64_decode [a] = []"
| "b64_decode [] = []"

definition is_ascii_ws :: "nat \<Rightarrow> bool" where
  "is_ascii_ws c \<longleftrightarrow> c = 9 \<or> c = 10 \<or> c = 12 \<or> c = 13 \<or> c = 32"

definition strip_padding :: "jstring \<Rightarrow> jstring" where
  "strip_padding d =
     (if length d mod 4 = 0 then
        (case rev d of
           c1 # c2 # r \<Rightarrow> if c1 = 61 then (if c2 = 61 then rev r else rev (c2 # r)) else d
         | _ \<Rightarrow> d)
      else d)"

definition atob :: "jstring \<Rightarrow> exn + jstring" where
  "atob s =
     (let d = strip_padding (filter (\<lambda>c. \<not> is_ascii_ws c) s)
      in if length d mod 4 = 1 then Inl InvalidCharacterError
         else (case those (map b64_value d) of
                 None \<Rightarrow> Inl InvalidCharacterError
               | Some vs \<Rightarrow> Inr (b64_decode vs)))"

subsection \<open>The regular-expression replacements\<close>

text \<open>
  \<open>.replace(/\+/g, "-").replace(/\//g, "_").replace(/=+$/, "")\<close> after \<open>btoa\<close>, and
  \<open>.replace(/-/g, "+").replace(/_/g, "/")\<close> before \<open>atob\<close>.
\<close>

definition replace_all :: "nat \<Rightarrow> nat \<Rightarrow> jstring \<Rightarrow> jstring" where
  "replace_all a b s = map (\<lambda>c. if c = a then b else c) s"

definition strip_trailing_eq :: "jstring \<Rightarrow> jstring" where
  "strip_trailing_eq s = rev (dropWhile (\<lambda>c. c = 61) (rev s))"

definition to_base64url :: "jstring \<Rightarrow> jstring" where
  "to_base64url s = strip_trailing_eq (replace_all 47 95 (replace_all 43 45 s))"

definition from_base64url :: "jstring \<Rightarrow> jstring" where
  "from_base64url s = replace_all 95 47 (replace_all 45 43 s)"

subsection \<open>\<open>JSON.parse\<close>\<close>

text \<open>
  A recursive-descent reader of the JSON grammar (ECMA-404): the four whitespace
  characters, the literals, numbers with fraction and exponent, strings with their
  escapes and without raw control characters, arrays and objects without trailing
  commas. \<open>None\<close> is the SyntaxError. A number literal is read as its exact
  value, where \<open>JSON.parse\<close> rounds it to the nearest double: the two agree on every
  literal that is a double, so on every integer below \<open>2^53\<close>, and the statements
  about expiry below are made for an integer \<open>exp\<close>.
\<close>

definition is_json_ws :: "nat \<Rightarrow> bool" where
  "is_json_ws c \<longleftrightarrow> c = 9 \<or> c = 10 \<or> c = 13 \<or> c = 32"

definition skip_ws :: "jstring \<Rightarrow> jstring" where
  "skip_ws s = dropWhile is_json_ws s"

definition is_digit :: "nat \<Rightarrow> bool" where
  "is_digit c \<longleftrightarrow> 48 \<le> c \<and> c \<le> 57"

definition hex_value :: "nat \<Rightarrow> nat option" where
  "hex_value c = (if 48 \<le> c \<and> c \<le> 57 then Some (c - 48)
                  else if 97 \<le> c \<and> c \<le> 102 then Some (c - 87)
                  else if 65 \<le> c \<and> c \<le> 70 then Some (c - 55) else None)"

definition unescape :: "nat \<Rightarrow> nat option" where
  "unescape e = (if e = 34 \<or> e = 92 \<or> e = 47 then Some e
                 else if e = 98 then Some 8 else if e = 102 then Some 12
                 else if e = 110 then Some 10 else if e = 114 then Some 13
                 else if e = 116 then Some 9 else None)"

text \<open>The characters of a string after its opening quote, with the rest of the input.\<close>

fun parse_chars :: "jstring \<Rightarrow> (jstring \<times> jstring) option" where
  "parse_chars [] = None"
| "parse_chars (c # r) =
     (if c = 34 then Some ([], r)
      else if c < 32 then None
      else if c = 92 then
        (case r of
           [] \<Rightarrow> None
         | e # r1 \<Rightarrow>
             if e = 117 then
               (case r1 of
                  h1 # h2 # h3 # h4 # r2 \<Rightarrow>
                    (case (hex_value h1, hex_value h2, hex_value h3, hex_value h4) of
                       (Some a, Some b, Some c, Some d) \<Rightarrow>
                         (case parse_chars r2 of
                            None \<Rightarrow> None
                          | Some (cs, rest) \<Rightarrow> Some ((4096 * a + 256 * b + 16 * c + d) # cs, rest))
                     | _ \<Rightarrow> None)
                | _ \<Rightarrow> None)
             else
               (case unescape e of
                  None \<Rightarrow> None
                | Some x \<Rightarrow>
                    (case parse_chars r1 of
                       None \<Rightarrow> None
                     | Some (cs, rest) \<Rightarrow> Some (x # cs, rest))))
      else (case parse_chars r of
              None \<Rightarrow> None
            | Some (cs, rest) \<Rightarrow> Some (c # cs, rest)))"

definition digits_value :: "nat list \<Rightarrow> nat" where
  "digits_value ds = foldl (\<lambda>a d. 10 * a + (d - 48)) 0 ds"

definition parse_int_part :: "jstring \<Rightarrow> (nat list \<times> jstring) option" where
  "parse_int_part s =
     (case s of
        [] \<Rightarrow> None
      | c # r \<Rightarrow> if c = 48 then Some ([c], r)
                 else if is_digit c then Some (c # takeWhile is_digit r, dropWhile is_digit r)
                 else None)"

definition parse_frac :: "jstring \<Rightarrow> (nat list \<times> jstring) option" where
  "parse_frac s =
     (case s of
        c # r \<Rightarrow> if c = 46 then
                    (if takeWhile is_digit r = [] then None
                     else Some (takeWhile is_digit r, dropWhile is_digit r))
                  else Some ([], s)
      | [] \<Rightarrow> Some ([], s))"

definition parse_exp :: "jstring \<Rightarrow> (int \<times> jstring) option" where
  "parse_exp s =
     (case s of
        c # r \<Rightarrow>
          if c = 101 \<or> c = 69 then
            (let (neg, r1) =
                   (case r of
                      sg # r' \<Rightarrow> if sg = 45 then (True, r')
                                 else if sg = 43 then (False, r') else (False, r)
                    | [] \<Rightarrow> (False, r))
             in if takeWhile is_digit r1 = [] then None
                else Some ((if neg then - int (digits_value (takeWhile is_digit r1))
                            else int (digits_value (takeWhile is_digit r1))),
                           dropWhile is_digit r1))
          else Some (0, s)
      | [] \<Rightarrow> Some (0, s))"

definition pow10 :: "int \<Rightarrow> rat" where
  "pow10 e = (if 0 \<le> e then 10 ^ nat e else 1 / 10 ^ nat (- e))"

definition parse_number :: "jstring \<Rightarrow> (rat \<times> jstring) option" where
  "parse_number s =
     (let (neg, s1) =
            (case s of c # r \<Rightarrow> if c = 45 then (True, r) else (False, s) | [] \<Rightarrow> (False, s))
      in case parse_int_part s1 of
           None \<Rightarrow> None
         | Some (ip, s2) \<Rightarrow>
             (case parse_frac s2 of
                None \<Rightarrow> None
              | Some (fp, s3) \<Rightarrow>
                  (case parse_exp s3 of
                     None \<Rightarrow> None
                   | Some (e, s4) \<Rightarrow>
                       Some ((if neg then - 1 else 1)
                               * of_nat (digits_value (ip @ fp)) * pow10 (e - int (length fp)),
                             s4))))"

lemma length_skip_ws: "length (skip_ws s) \<le> length s"
  by (simp add: skip_ws_def length_dropWhile_le)

lemma parse_chars_shorter: "parse_chars s = Some (cs, r) \<Longrightarrow> length r < length s"
  by (induction s arbitrary: cs r rule: parse_chars.induct)
     (auto split: if_splits list.splits option.splits prod.splits, fastforce+)

text \<open>
  Values, the elements of an array after its opening bracket and the members of an
  object after its opening brace. The two loops go on only on a shorter input
  (\<open>length r1 < length s\<close>), which is what makes the recursion end; a value read is
  never empty, so the test always holds where it stands (\<open>parse_consumes\<close>,
  \<open>parse_elements_unguarded\<close> and \<open>parse_members_unguarded\<close> below).
\<close>

function parse_value :: "jstring \<Rightarrow> (json \<times> jstring) option"
  and parse_elements :: "jstring \<Rightarrow> (json list \<times> jstring) option"
  and parse_members :: "jstring \<Rightarrow> ((jstring \<times> json) list \<times> jstring) option"
where
  "parse_value s =
     (case skip_ws s of
        [] \<Rightarrow> None
      | c # r \<Rightarrow>
          if c = 123 then
            (case skip_ws r of
               [] \<Rightarrow> None
             | c1 # r1 \<Rightarrow> if c1 = 125 then Some (JObj [], r1)
                          else (case parse_members r of
                                  None \<Rightarrow> None
                                | Some (ms, rest) \<Rightarrow> Some (JObj ms, rest)))
          else if c = 91 then
            (case skip_ws r of
               [] \<Rightarrow> None
             | c1 # r1 \<Rightarrow> if c1 = 93 then Some (JArr [], r1)
                          else (case parse_elements r of
                                  None \<Rightarrow> None
                                | Some (vs, rest) \<Rightarrow> Some (JArr vs, rest)))
          else if c = 34 then
            (case parse_chars r of
               None \<Rightarrow> None
             | Some (cs, rest) \<Rightarrow> Some (JStr cs, rest))
          else if take 4 (c # r) = [116, 114, 117, 101] then Some (JBool True, drop 4 (c # r))
          else if take 5 (c # r) = [102, 97, 108, 115, 101] then Some (JBool False, drop 5 (c # r))
          else if take 4 (c # r) = [110, 117, 108, 108] then Some (JNull, drop 4 (c # r))
          else (case parse_number (c # r) of
                  None \<Rightarrow> None
                | Some (q, rest) \<Rightarrow> Some (JNum q, rest)))"
| "parse_elements s =
     (case parse_value s of
        None \<Rightarrow> None
      | Some (v, r) \<Rightarrow>
          (case skip_ws r of
             [] \<Rightarrow> None
           | c # r1 \<Rightarrow>
               if c = 93 then Some ([v], r1)
               else if c = 44 \<and> length r1 < length s then
                 (case parse_elements r1 of
                    None \<Rightarrow> None
                  | Some (vs, rest) \<Rightarrow> Some (v # vs, rest))
               else None))"
| "parse_members s =
     (case skip_ws s of
        [] \<Rightarrow> None
      | q # r \<Rightarrow>
          if q = 34 then
            (case parse_chars r of
               None \<Rightarrow> None
             | Some (k, r1) \<Rightarrow>
                 (case skip_ws r1 of
                    [] \<Rightarrow> None
                  | c # r2 \<Rightarrow>
                      if c = 58 then
                        (case parse_value r2 of
                           None \<Rightarrow> None
                         | Some (v, r3) \<Rightarrow>
                             (case skip_ws r3 of
                                [] \<Rightarrow> None
                              | c1 # r4 \<Rightarrow>
                                  if c1 = 125 then Some ([(k, v)], r4)
                                  else if c1 = 44 \<and> length r4 < length s then
                                    (case parse_members r4 of
                                       None \<Rightarrow> None
                                     | Some (ms, rest) \<Rightarrow> Some ((k, v) # ms, rest))
                                  else None))
                      else None))
          else None)"
  by pat_completeness auto
termination
proof (relation "measure (\<lambda>x. case x of Inl s \<Rightarrow> 2 * length s
                               | Inr (Inl s) \<Rightarrow> 2 * length s + 1
                               | Inr (Inr s) \<Rightarrow> 2 * length s + 1)", goal_cases)
  case 1
  then show ?case by simp
next
  case (2 s c r c1 r1)
  then have "length (c # r) \<le> length s" by (metis length_skip_ws)
  then show ?case by simp
next
  case (3 s c r c1 r1)
  then have "length (c # r) \<le> length s" by (metis length_skip_ws)
  then show ?case by simp
next
  case (4 s)
  then show ?case by simp
next
  case (5 s x2 v r c r1)
  then show ?case by simp
next
  case (6 s q r k_r1 k r1 c r2)
  have "length (q # r) \<le> length s" using 6 by (metis length_skip_ws)
  moreover have "length r1 < length r" using 6 by (metis parse_chars_shorter)
  moreover have "length (c # r2) \<le> length r1" using 6 by (metis length_skip_ws)
  ultimately show ?case by simp
next
  case 7
  then show ?case by simp
qed

declare parse_value.simps [simp del] parse_elements.simps [simp del] parse_members.simps [simp del]

definition JSON_parse :: "jstring \<Rightarrow> json option" where
  "JSON_parse s =
     (case parse_value s of
        None \<Rightarrow> None
      | Some (v, r) \<Rightarrow> if skip_ws r = [] then Some v else None)"

subsection \<open>\<open>JSON.stringify\<close> of the two object literals\<close>

text \<open>
  \<open>generateToken\<close> serialises objects whose members are strings and integers.
  \<open>quote_chars\<close> is QuoteJSONString without the enclosing quotes: the short escapes,
  \<open>\u00xx\<close> for the other control characters, \<open>\udxxx\<close> for a surrogate that has
  no partner, and every other code unit as it is. An integer is printed in decimal, as
  \<open>Number::toString\<close> does below \<open>10^21\<close> (no clock value of a Date is that large).
\<close>

definition hex_digit :: "nat \<Rightarrow> nat" where
  "hex_digit d = (if d < 10 then 48 + d else 87 + d)"

definition unicode_escape :: "nat \<Rightarrow> jstring" where
  "unicode_escape c =
     [92, 117, hex_digit (c div 4096 mod 16), hex_digit (c div 256 mod 16),
      hex_digit (c div 16 mod 16), hex_digit (c mod 16)]"

definition is_high_surrogate :: "nat \<Rightarrow> bool" where
  "is_high_surrogate c \<longleftrightarrow> 55296 \<le> c \<and> c \<le> 56319"

definition is_low_surrogate :: "nat \<Rightarrow> bool" where
  "is_low_surrogate c \<longleftrightarrow> 56320 \<le> c \<and> c \<le> 57343"

fun quote_chars :: "jstring \<Rightarrow> jstring" where
  "quote_chars [] = []"
| "quote_chars (c # r) =
     (if c = 8 then [92, 98] @ quote_chars r
      else if c = 9 then [92, 116] @ quote_chars r
      else if c = 10 then [92, 110] @ quote_chars r
      else if c = 12 then [92, 102] @ quote_chars r
      else if c = 13 then [92, 114] @ quote_chars r
      else if c = 34 then [92, 34] @ quote_chars r
      else if c = 92 then [92, 92] @ quote_chars r
      else if c < 32 then unicode_escape c @ quote_chars r
      else if is_high_surrogate c then
        (case r of
           [] \<Rightarrow> unicode_escape c
         | d # r' \<Rightarrow> if is_low_surrogate d then c # d # quote_chars r'
                     else unicode_escape c @ quote_chars r)
      else if is_low_surrogate c then unicode_escape c @ quote_chars r
      else c # quote_chars r)"

definition quote :: "jstring \<Rightarrow> jstring" where
  "quote s = [34] @ quote_chars s @ [34]"

function decimal :: "nat \<Rightarrow> jstring" where
  "decimal n = (if n < 10 then [48 + n] else decimal (n div 10) @ [48 + n mod 10])"
  by pat_completeness auto
termination
  by (relation "measure (\<lambda>n. n)") auto

declare decimal.simps [simp del]

definition show_int :: "int \<Rightarrow> jstring" where
  "show_int i = (if i < 0 then 45 # decimal (nat (- i)) else decimal (nat i))"

datatype jsprim = PStr jstring | PInt int

fun stringify_prim :: "jsprim \<Rightarrow> jstring" where
  "stringify_prim (PStr s) = quote s"
| "stringify_prim (PInt i) = show_int i"

fun stringify_members :: "(jstring \<times> jsprim) list \<Rightarrow> jstring" where
  "stringify_members [] = []"
| "stringify_members [(k, v)] = quote k @ [58] @ stringify_prim v"
| "stringify_members ((k, v) # m # ms) =
     quote k @ [58] @ stringify_prim v @ [44] @ stringify_members (m # ms)"

definition JSON_stringify :: "(jstring \<times> jsprim) list \<Rightarrow> jstring" where
  "JSON_stringify ms = [123] @ stringify_members ms @ [125]"

section \<open>The API class\<close>

text \<open>
  The private fields the constructor of \<open>NavigationAPI\<close> fills from the environment
  (the database is the \<open>storage\<close> above, passed where it is used).
\<close>

record api =
  authEnabled :: bool
  username :: jstring
  password :: jstring
  secret :: jstring

text \<open>
  The secret the constructor falls back to when \<open>AUTH_SECRET\<close> is not set: fifteen
  Chinese characters ("default key, setting one is advised in production"), as UTF-16
  code units.
\<close>

definition default_secret :: jstring where
  "default_secret = [40664, 35748, 23494, 38053, 65292, 24314, 35758, 22312, 29983, 20135,
                     29615, 22659, 20013, 35774, 32622]"

text \<open>
  The constructor. An environment variable is a string or absent; \<open>x || d\<close> takes
  \<open>d\<close> for an absent and for an empty \<open>x\<close>.
\<close>

definition or_default :: "jstring option \<Rightarrow> jstring \<Rightarrow> jstring" where
  "or_default x d = (case x of None \<Rightarrow> d | Some s \<Rightarrow> if s = [] then d else s)"

record env =
  AUTH_ENABLED :: "jstring option"
  AUTH_USERNAME :: "jstring option"
  AUTH_PASSWORD :: "jstring option"
  AUTH_SECRET :: "jstring option"

definition new_api :: "env \<Rightarrow> api" where
  "new_api e =
     \<lparr>authEnabled = (AUTH_ENABLED e = Some (lit ''true'')),
      username = or_default (AUTH_USERNAME e) [],
      password = or_default (AUTH_PASSWORD e) [],
      secret = or_default (AUTH_SECRET e) default_secret\<rparr>"

subsection \<open>\<open>generateToken\<close>\<close>

text \<open>
  Both callers pass the payload \<open>{ username: u }\<close>, so the payload is the string
  \<open>u\<close>. \<open>Date.now()\<close> is read twice, first for \<open>exp\<close> and then for \<open>iat\<close>:
  \<open>t_exp\<close> and \<open>t_iat\<close> are the two readings in milliseconds, and
  \<open>Math.floor(t / 1000)\<close> is \<open>t div 1000\<close>. Each \<open>btoa\<close> may throw.
\<close>

definition generateToken :: "api \<Rightarrow> int \<Rightarrow> int \<Rightarrow> jstring \<Rightarrow> exn + jstring" where
  "generateToken a t_exp t_iat u =
     (let tokenPayload = [(lit ''username'', PStr u),
                          (lit ''exp'', PInt (t_exp div 1000 + 24 * 60 * 60)),
                          (lit ''iat'', PInt (t_iat div 1000))];
          header = [(lit ''alg'', PStr (lit ''HS256'')), (lit ''typ'', PStr (lit ''JWT''))]
      in case btoa (JSON_stringify header) of
           Inl e \<Rightarrow> Inl e
         | Inr h \<Rightarrow>
             (let encodedHeader = to_base64url h
              in case btoa (JSON_stringify tokenPayload) of
                   Inl e \<Rightarrow> Inl e
                 | Inr p \<Rightarrow>
                     (let encodedPayload = to_base64url p
                      in case btoa (secret a @ encodedHeader @ encodedPayload) of
                           Inl e \<Rightarrow> Inl e
                         | Inr sg \<Rightarrow>
                             Inr (encodedHeader @ [46] @ encodedPayload @ [46]
                                    @ to_base64url sg))))"

subsection \<open>\<open>verifyToken\<close>\<close>

text \<open>
  \<open>JSON.parse(atob(payload.replace(/-/g, "+").replace(/_/g, "/")))\<close>: either built-in
  may throw.
\<close>

definition decode_payload :: "jstring \<Rightarrow> exn + json" where
  "decode_payload p =
     (case atob (from_base64url p) of
        Inl e \<Rightarrow> Inl e
      | Inr text \<Rightarrow> (case JSON_parse text of None \<Rightarrow> Inl SyntaxError | Some v \<Rightarrow> Inr v))"

text \<open>
  The body of the \<open>try\<close> block. \<open>now_ms\<close> is the reading of \<open>Date.now()\<close>. The
  signature segment is read from the token and, as the comment in the source says, not
  verified.
\<close>

definition verify_body :: "(json \<Rightarrow> int \<Rightarrow> bool) \<Rightarrow> int \<Rightarrow> jstring \<Rightarrow> exn + json" where
  "verify_body js_less now_ms tok =
     (let parts = split_on 46 tok;
          header = element parts 0;
          payload = element parts 1;
          signature = element parts 2
      in if \<not> nonempty header \<or> \<not> nonempty payload \<or> \<not> nonempty signature
         then Inl InvalidTokenFormat
         else (case payload of
                 None \<Rightarrow> Inl InvalidTokenFormat
               | Some p \<Rightarrow>
                   (case decode_payload p of
                      Inl e \<Rightarrow> Inl e
                    | Inr decodedPayload \<Rightarrow>
                        (case get_prop decodedPayload (lit ''exp'') of
                           Inl e \<Rightarrow> Inl e
                         | Inr exp_claim \<Rightarrow>
                             if truthy exp_claim
                                \<and> less_than js_less exp_claim (now_ms div 1000)
                             then Inl TokenExpired
                             else Inr decodedPayload))))"

record verify_result =
  valid :: bool
  payload :: "json option"

definition verifyToken ::
  "(json \<Rightarrow> int \<Rightarrow> bool) \<Rightarrow> api \<Rightarrow> int \<Rightarrow> jstring \<Rightarrow> verify_result" where
  "verifyToken js_less a now_ms tok =
     (if \<not> authEnabled a then \<lparr>valid = True, payload = None\<rparr>
      else (case verify_body js_less now_ms tok of
              Inl e \<Rightarrow> \<lparr>valid = False, payload = None\<rparr>
            | Inr decodedPayload \<Rightarrow> \<lparr>valid = True, payload = Some decodedPayload\<rparr>))"

definition isAuthEnabled :: "api \<Rightarrow> bool" where
  "isAuthEnabled a = authEnabled a"

subsection \<open>\<open>login\<close>\<close>

record LoginRequest =
  req_username :: jstring
  req_password :: jstring

record LoginResponse =
  success :: bool
  token :: "jstring option"
  message :: "jstring option"

text \<open>
  The three messages, in Chinese in the source: "authentication is not enabled, logged
  in by default", "login succeeded" and "wrong user name or password".
\<close>

definition msg_auth_disabled :: jstring where
  "msg_auth_disabled = [36523, 20221, 39564, 35777, 26410, 21551, 29992, 65292, 40664, 35748,
                        30331, 24405, 25104, 21151]"

definition msg_login_ok :: jstring where
  "msg_login_ok = [30331, 24405, 25104, 21151]"

definition msg_login_failed :: jstring where
  "msg_login_failed = [29992, 25143, 21517, 25110, 23494, 30721, 38169, 35823]"

text \<open>
  \<open>===\<close> on two strings is equality of their code units. A throw of \<open>generateToken\<close>
  is not caught here: the promise of \<open>login\<close> rejects.
\<close>

definition login :: "api \<Rightarrow> int \<Rightarrow> int \<Rightarrow> LoginRequest \<Rightarrow> exn + LoginResponse" where
  "login a t_exp t_iat loginRequest =
     (if \<not> authEnabled a then
        (case generateToken a t_exp t_iat (lit ''guest'') of
           Inl e \<Rightarrow> Inl e
         | Inr tok \<Rightarrow> Inr \<lparr>success = True, token = Some tok, message = Some msg_auth_disabled\<rparr>)
      else if req_username loginRequest = username a \<and> req_password loginRequest = password a then
        (case generateToken a t_exp t_iat (req_username loginRequest) of
           Inl e \<Rightarrow> Inl e
         | Inr tok \<Rightarrow> Inr \<lparr>success = True, token = Some tok, message = Some msg_login_ok\<rparr>)
      else Inr \<lparr>success = False, token = None, message = Some msg_login_failed\<rparr>)"

section \<open>Storage: the D1 collaborator\<close>

text \<open>
  The columns of \<open>groups\<close> and \<open>sites\<close> as \<open>initDB\<close> creates them. \<open>id\<close> is the
  integer primary key; \<open>order_num\<close> holds whatever number was bound.
\<close>

record ordered_row =
  row_id :: int
  order_num :: rat
  updated_at :: nat


record site_row = ordered_row +
  site_group_id :: int
  site_name :: jstring
  site_url :: jstring
  site_icon :: jstring
  site_description :: jstring
  site_notes :: jstring
  site_created_at :: nat





text \<open>
  Modelled from the spec: the SQL engine behind \<open>D1Database\<close>, of which the sources hold
  the interface only. An UPDATE rewrites every row its WHERE clause selects and no other;
  a WHERE clause that selects nothing changes nothing and is no error.
\<close>

definition update_rows ::
  "nat \<Rightarrow> rat \<Rightarrow> rat \<Rightarrow> ('a ordered_row_scheme) list \<Rightarrow> ('a ordered_row_scheme) list" where
  "update_rows ts n i rows =
     map (\<lambda>r. if of_int (row_id r) = i then r\<lparr>order_num := n, updated_at := ts\<rparr> else r) rows"





section \<open>Order Sync\<close>

text \<open>The element type \<open>{ id: number; order_num: number }\<close> of both reorder calls.\<close>

record order_item =
  item_id :: rat
  item_order_num :: rat



text \<open>
  What a fully applied request leaves in a table: every item's update, in the order of
  the request.
\<close>

definition apply_orders ::
  "nat \<Rightarrow> order_item list \<Rightarrow> ('a ordered_row_scheme) list \<Rightarrow> ('a ordered_row_scheme) list" where
  "apply_orders ts items rows =
     fold (\<lambda>item. update_rows ts (item_order_num item) (item_id item)) items rows"

text \<open>The same, seen from one row.\<close>

definition apply_to_row ::
  "nat \<Rightarrow> order_item list \<Rightarrow> 'a ordered_row_scheme \<Rightarrow> 'a ordered_row_scheme" where
  "apply_to_row ts items r =
     fold (\<lambda>item r. if of_int (row_id r) = item_id item
                      then r\<lparr>order_num := item_order_num item, updated_at := ts\<rparr> else r) items r"

section \<open>The worker: the blocks of \<open>fetch\<close> the claims are about\<close>

datatype body = Text jstring | Json json

record response =
  status :: nat
  headers :: "(jstring \<times> jstring) list"
  body :: body

text \<open>
  The texts of the responses, in Chinese in the source: "please log in first", "invalid
  authentication information", "authentication expired or invalid, please log in
  again", "the ordering data must be an array", "ordering data malformed, every item
  must contain id and order_num" and "an error occurred while handling the request".
\<close>

definition msg_please_login :: jstring where
  "msg_please_login = [35831, 20808, 30331, 24405]"

definition msg_bad_auth :: jstring where
  "msg_bad_auth = [26080, 25928, 30340, 35748, 35777, 20449, 24687]"

definition msg_expired :: jstring where
  "msg_expired = [35748, 35777, 24050, 36807, 26399, 25110, 26080, 25928, 65292, 35831, 37325,
                  26032, 30331, 24405]"




subsection \<open>The authentication middleware\<close>

text \<open>
  The block every request reaches that is neither \<open>POST login\<close> nor \<open>GET init\<close>.
  \<open>authHeader\<close> is what \<open>request.headers.get("Authorization")\<close> returns: \<open>None\<close> for
  \<open>null\<close>. The result is the response the block returns, or \<open>None\<close> when control
  falls through to the routes.
\<close>

definition auth_gate ::
  "(json \<Rightarrow> int \<Rightarrow> bool) \<Rightarrow> api \<Rightarrow> int \<Rightarrow> jstring option \<Rightarrow> response option" where
  "auth_gate js_less a now_ms authHeader =
     (if isAuthEnabled a then
        (if \<not> nonempty authHeader then
           Some \<lparr>status = 401,
                 headers = [(lit ''WWW-Authenticate'', lit ''Bearer'')],
                 body = Text msg_please_login\<rparr>
         else (case authHeader of
                 None \<Rightarrow> None
               | Some h \<Rightarrow>
                   (let parts = split_on 32 h;
                        authType = element parts 0;
                        tok = element parts 1
                    in if authType \<noteq> Some (lit ''Bearer'') \<or> \<not> nonempty tok then
                         Some \<lparr>status = 401, headers = [], body = Text msg_bad_auth\<rparr>
                       else (case tok of
                               None \<Rightarrow> None
                             | Some t \<Rightarrow>
                                 if \<not> valid (verifyToken js_less a now_ms t) then
                                   Some \<lparr>status = 401, headers = [], body = Text msg_expired\<rparr>
                                 else None))))
      else None)"

subsection \<open>\<open>PUT group-orders\<close> and \<open>PUT site-orders\<close>\<close>



text \<open>
  The array is then passed on as \<open>{ id: number; order_num: number }[]\<close>: the two
  numbers of each element are what \<open>bind\<close> receives. An element without them has no
  such reading (none passes the loop, see \<open>accepted_items_typed\<close>).
\<close>

definition as_order_item :: "json \<Rightarrow> order_item option" where
  "as_order_item item =
     (case (get_prop item (lit ''id''), get_prop item (lit ''order_num'')) of
        (Inr (Some (JNum i)), Inr (Some (JNum n))) \<Rightarrow> Some \<lparr>item_id = i, item_order_num = n\<rparr>
      | _ \<Rightarrow> None)"






section \<open>Definitions for the statements\<close>

subsection \<open>Example tokens\<close>

text \<open>
  A server with authentication enabled, and the token it issues to \<open>admin\<close> at
  1700000000.123 seconds: header, claims
  \<^verbatim>\<open>{"username":"admin","exp":1700086400,"iat":1700000000}\<close> and tag.
\<close>

definition example_api :: api where
  "example_api = \<lparr>authEnabled = True, username = lit ''admin'', password = lit ''hunter2'',
                   secret = lit ''s3cret''\<rparr>"

definition example_header :: jstring where
  "example_header = lit ''eyJhbGciOiJIUzI1NiIsInR5cCI6IkpXVCJ9''"

definition example_claims :: jstring where
  "example_claims = lit ''eyJ1c2VybmFtZSI6ImFkbWluIiwiZXhwIjoxNzAwMDg2NDAwLCJpYXQiOjE3MDAwMDAwMDB9''"

definition example_tag :: jstring where
  "example_tag = lit ''czNjcmV0ZXlKaGJHY2lPaUpJVXpJMU5pSXNJblI1Y0NJNklrcFhWQ0o5ZXlKMWMyVnlibUZ0WlNJNkltRmtiV2x1SWl3aVpYaHdJam94TnpBd01EZzJOREF3TENKcFlYUWlPakUzTURBd01EQXdNREI5''"

definition example_token :: jstring where
  "example_token = example_header @ [46] @ example_claims @ [46] @ example_tag"

text \<open>
  Claims segments for \<^verbatim>\<open>{"exp":1700000000}\<close> and \<^verbatim>\<open>{"exp":0}\<close>.
\<close>

definition boundary_claims :: jstring where
  "boundary_claims = lit ''eyJleHAiOjE3MDAwMDAwMDB9''"

definition epoch_claims :: jstring where
  "epoch_claims = lit ''eyJleHAiOjB9''"

subsection \<open>base64url text\<close>

text \<open>The characters of base64url text, and the character \<open>to_base64url\<close> writes for one of base64.\<close>

definition b64url_alphabet :: "nat set" where
  "b64url_alphabet = {65..90} \<union> {97..122} \<union> {48..57} \<union> {45, 95}"

definition url_char :: "nat \<Rightarrow> nat" where
  "url_char c = (if c = 43 then 45 else if c = 47 then 95 else c)"

text \<open>
  The six-bit groups of a byte string, without padding: \<open>to_base64url\<close> after
  \<open>btoa\<close> writes one character for each, and \<open>atob\<close> after \<open>from_base64url\<close>
  reads the bytes back.
\<close>

fun sextets :: "nat list \<Rightarrow> nat list" where
  "sextets (a # b # c # rest) =
     a div 4 # ((a mod 4) * 16 + b div 16) # ((b mod 16) * 4 + c div 64) # c mod 64 # sextets rest"
| "sextets [a, b] = [a div 4, (a mod 4) * 16 + b div 16, (b mod 16) * 4]"
| "sextets [a] = [a div 4, (a mod 4) * 16]"
| "sextets [] = []"

subsection \<open>Storage errors and the scenario of the spec: ids 1, 2, 3 at positions 0, 1, 2\<close>






subsection \<open>Reorder requests\<close>

text \<open>
  What the loop of the routes accepts: an element with a non-zero number as \<open>id\<close> and
  a number as \<open>order_num\<close>.
\<close>

definition accepts :: "json \<Rightarrow> bool" where
  "accepts item = (case as_order_item item of Some x \<Rightarrow> item_id x \<noteq> 0 | None \<Rightarrow> False)"





section \<open>Properties of the built-ins\<close>

subsection \<open>The JSON reader always moves forward\<close>

lemma parse_int_part_shorter: "parse_int_part s = Some (ds, r) \<Longrightarrow> length r < length s"
  by (auto simp: parse_int_part_def split: list.splits if_splits
           intro: le_imp_less_Suc length_dropWhile_le)

lemma parse_frac_shorter: "parse_frac s = Some (ds, r) \<Longrightarrow> length r \<le> length s"
  by (auto simp: parse_frac_def split: list.splits if_splits
           intro: le_SucI length_dropWhile_le)

lemma parse_exp_shorter: "parse_exp s = Some (e, r) \<Longrightarrow> length r \<le> length s"
  by (auto simp: parse_exp_def Let_def split: list.splits if_splits prod.splits
           intro: le_SucI length_dropWhile_le)

lemma parse_number_shorter: "parse_number s = Some (q, r) \<Longrightarrow> length r < length s"
proof -
  assume a: "parse_number s = Some (q, r)"
  obtain neg s1 where n: "(case s of c # r \<Rightarrow> if c = 45 then (True, r) else (False, s) | [] \<Rightarrow> (False, s)) = (neg, s1)"
    by (cases "(case s of c # r \<Rightarrow> if c = 45 then (True, r) else (False, s) | [] \<Rightarrow> (False, s))")
  then have l1: "length s1 \<le> length s" by (auto split: list.splits if_splits)
  from a n obtain ip s2 fp s3 e where
    "parse_int_part s1 = Some (ip, s2)" "parse_frac s2 = Some (fp, s3)" "parse_exp s3 = Some (e, r)"
    by (auto simp: parse_number_def split: option.splits)
  then have "length s2 < length s1" "length s3 \<le> length s2" "length r \<le> length s3"
    by (auto dest: parse_int_part_shorter parse_frac_shorter parse_exp_shorter)
  with l1 show ?thesis by simp
qed

lemma skip_ws_Cons_shorter: "skip_ws s = c # r \<Longrightarrow> length r < length s"
  using length_skip_ws [of s] by simp

text \<open>
  Whatever is read leaves a shorter input, so the two length tests in the loops never
  fail: the loops obey the plain equations without them.
\<close>

lemma parse_consumes:
  "\<forall>v r. parse_value s = Some (v, r) \<longrightarrow> length r < length s"
  "\<forall>vs r. parse_elements s1 = Some (vs, r) \<longrightarrow> length r < length s1"
  "\<forall>ms r. parse_members s2 = Some (ms, r) \<longrightarrow> length r < length s2"
proof (induction s and s1 and s2 rule: parse_value_parse_elements_parse_members.induct)
  case (1 s)
  show ?case
  proof (intro allI impI)
    fix v r
    assume a: "parse_value s = Some (v, r)"
    show "length r < length s"
    proof (cases "skip_ws s")
      case Nil
      with a show ?thesis by (simp add: parse_value.simps [of s])
    next
      case (Cons c r0)
      then have l0: "length r0 < length s" by (rule skip_ws_Cons_shorter)
      consider (obj) "c = 123" | (arr) "c = 91" | (str) "c = 34"
        | (other) "c \<noteq> 123" "c \<noteq> 91" "c \<noteq> 34"
        by blast
      then show ?thesis
      proof cases
        case obj
        show ?thesis
        proof (cases "skip_ws r0")
          case Nil
          with a Cons obj show ?thesis by (simp add: parse_value.simps [of s])
        next
          case inner: (Cons c1 r1)
          then have l1: "length r1 < length r0" by (rule skip_ws_Cons_shorter)
          show ?thesis
          proof (cases "c1 = 125")
            case True
            with a Cons obj inner have "r = r1" by (simp add: parse_value.simps [of s])
            with l0 l1 show ?thesis by simp
          next
            case False
            with a Cons obj inner obtain ms where "parse_members r0 = Some (ms, r)"
              by (auto simp: parse_value.simps [of s] split: option.splits)
            with "1.IH"(1) [OF Cons obj inner False] have "length r < length r0" by blast
            with l0 show ?thesis by simp
          qed
        qed
      next
        case arr
        show ?thesis
        proof (cases "skip_ws r0")
          case Nil
          with a Cons arr show ?thesis by (simp add: parse_value.simps [of s])
        next
          case inner: (Cons c1 r1)
          then have l1: "length r1 < length r0" by (rule skip_ws_Cons_shorter)
          show ?thesis
          proof (cases "c1 = 93")
            case True
            with a Cons arr inner have "r = r1" by (simp add: parse_value.simps [of s])
            with l0 l1 show ?thesis by simp
          next
            case False
            with a Cons arr inner obtain vs where "parse_elements r0 = Some (vs, r)"
              by (auto simp: parse_value.simps [of s] split: option.splits)
            moreover have "c \<noteq> 123" using arr by simp
            ultimately have "length r < length r0"
              using "1.IH"(2) [OF Cons _ arr inner False] by blast
            with l0 show ?thesis by simp
          qed
        qed
      next
        case str
        with a Cons obtain cs where "parse_chars r0 = Some (cs, r)"
          by (auto simp: parse_value.simps [of s] split: option.splits)
        then have "length r < length r0" by (rule parse_chars_shorter)
        with l0 show ?thesis by simp
      next
        case other
        with a Cons have "r = drop 4 (c # r0) \<or> r = drop 5 (c # r0)
            \<or> (\<exists>q. parse_number (c # r0) = Some (q, r))"
          by (auto simp: parse_value.simps [of s] split: if_splits option.splits)
        moreover have "length (c # r0) \<le> length s"
          using length_skip_ws [of s] Cons by simp
        ultimately show ?thesis
          by (auto dest!: parse_number_shorter)
      qed
    qed
  qed
next
  case (2 s)
  show ?case
  proof (intro allI impI)
    fix vs r
    assume a: "parse_elements s = Some (vs, r)"
    then obtain v r0 where pv: "parse_value s = Some (v, r0)"
      by (auto simp: parse_elements.simps [of s] split: option.splits)
    with "2.IH"(1) have l0: "length r0 < length s" by blast
    from a pv obtain c r1 where sk: "skip_ws r0 = c # r1"
      by (auto simp: parse_elements.simps [of s] split: list.splits)
    then have l1: "length r1 < length r0" by (rule skip_ws_Cons_shorter)
    show "length r < length s"
    proof (cases "c = 93")
      case True
      with a pv sk have "r = r1" by (simp add: parse_elements.simps [of s])
      with l0 l1 show ?thesis by simp
    next
      case False
      with a pv sk have c: "c = 44 \<and> length r1 < length s"
        and "\<exists>vs'. parse_elements r1 = Some (vs', r)"
        by (auto simp: parse_elements.simps [of s] split: if_splits option.splits)
      with "2.IH"(2) [OF pv refl sk False c] have "length r < length r1" by blast
      with l0 l1 show ?thesis by simp
    qed
  qed
next
  case (3 s)
  show ?case
  proof (intro allI impI)
    fix ms r
    assume a: "parse_members s = Some (ms, r)"
    then obtain q r0 where sk0: "skip_ws s = q # r0"
      by (auto simp: parse_members.simps [of s] split: list.splits)
    then have l0: "length r0 < length s" by (rule skip_ws_Cons_shorter)
    from a sk0 have q: "q = 34"
      by (auto simp: parse_members.simps [of s] split: if_splits)
    from a sk0 q obtain k r1 where pc: "parse_chars r0 = Some (k, r1)"
      by (auto simp: parse_members.simps [of s] split: option.splits)
    then have l1: "length r1 < length r0" by (rule parse_chars_shorter)
    from a sk0 q pc obtain c r2 where sk1: "skip_ws r1 = c # r2"
      by (auto simp: parse_members.simps [of s] split: list.splits)
    then have l2: "length r2 < length r1" by (rule skip_ws_Cons_shorter)
    from a sk0 q pc sk1 have c: "c = 58"
      by (auto simp: parse_members.simps [of s] split: if_splits)
    from a sk0 q pc sk1 c obtain v r3 where pv: "parse_value r2 = Some (v, r3)"
      by (auto simp: parse_members.simps [of s] split: option.splits)
    with "3.IH"(1) [OF sk0 q pc refl sk1 c] have l3: "length r3 < length r2" by blast
    from a sk0 q pc sk1 c pv obtain c1 r4 where sk2: "skip_ws r3 = c1 # r4"
      by (auto simp: parse_members.simps [of s] split: list.splits)
    then have l4: "length r4 < length r3" by (rule skip_ws_Cons_shorter)
    show "length r < length s"
    proof (cases "c1 = 125")
      case True
      with a sk0 q pc sk1 c pv sk2 have "r = r4" by (simp add: parse_members.simps [of s])
      with l0 l1 l2 l3 l4 show ?thesis by simp
    next
      case False
      with a sk0 q pc sk1 c pv sk2 have g: "c1 = 44 \<and> length r4 < length s"
        and "\<exists>ms'. parse_members r4 = Some (ms', r)"
        by (auto simp: parse_members.simps [of s] split: if_splits option.splits)
      with "3.IH"(2) [OF sk0 q pc refl sk1 c pv refl sk2 False g]
      have "length r < length r4" by blast
      with l0 l1 l2 l3 l4 show ?thesis by simp
    qed
  qed
qed

lemma parse_elements_unguarded:
  "parse_elements s =
     (case parse_value s of
        None \<Rightarrow> None
      | Some (v, r) \<Rightarrow>
          (case skip_ws r of
             [] \<Rightarrow> None
           | c # r1 \<Rightarrow>
               if c = 93 then Some ([v], r1)
               else if c = 44 then
                 (case parse_elements r1 of
                    None \<Rightarrow> None
                  | Some (vs, rest) \<Rightarrow> Some (v # vs, rest))
               else None))"
proof -
  have "length r1 < length s" if "parse_value s = Some (v, r)" "skip_ws r = c # r1" for v r c r1
    using that parse_consumes(1) [of s] skip_ws_Cons_shorter [of r c r1] by force
  then show ?thesis
    by (subst parse_elements.simps) (auto split: option.splits list.splits)
qed

lemma parse_members_unguarded:
  "parse_members s =
     (case skip_ws s of
        [] \<Rightarrow> None
      | q # r \<Rightarrow>
          if q = 34 then
            (case parse_chars r of
               None \<Rightarrow> None
             | Some (k, r1) \<Rightarrow>
                 (case skip_ws r1 of
                    [] \<Rightarrow> None
                  | c # r2 \<Rightarrow>
                      if c = 58 then
                        (case parse_value r2 of
                           None \<Rightarrow> None
                         | Some (v, r3) \<Rightarrow>
                             (case skip_ws r3 of
                                [] \<Rightarrow> None
                              | c1 # r4 \<Rightarrow>
                                  if c1 = 125 then Some ([(k, v)], r4)
                                  else if c1 = 44 then
                                    (case parse_members r4 of
                                       None \<Rightarrow> None
                                     | Some (ms, rest) \<Rightarrow> Some ((k, v) # ms, rest))
                                  else None))
                      else None))
          else None)"
proof -
  have "length r4 < length s"
    if "skip_ws s = q # r" "parse_chars r = Some (k, r1)" "skip_ws r1 = c # r2"
       "parse_value r2 = Some (v, r3)" "skip_ws r3 = c1 # r4" for q r k r1 c r2 v r3 c1 r4
  proof -
    have "length r < length s" "length r1 < length r" "length r2 < length r1"
      "length r3 < length r2" "length r4 < length r3"
      using that parse_consumes(1) [of r2]
      by (auto dest: skip_ws_Cons_shorter parse_chars_shorter)
    then show ?thesis by simp
  qed
  then show ?thesis
    by (subst parse_members.simps) (auto split: option.splits list.splits)
qed

section \<open>Properties of the token service\<close>

subsection \<open>Evaluation rules for concrete inputs\<close>

lemmas b64_eval = btoa_def atob_def b64_char_def b64_value_def strip_padding_def is_ascii_ws_def
  to_base64url_def from_base64url_def replace_all_def strip_trailing_eq_def

lemmas json_eval = JSON_parse_def parse_value.simps parse_elements.simps parse_members.simps
  skip_ws_def is_json_ws_def parse_number_def parse_int_part_def parse_frac_def parse_exp_def
  is_digit_def digits_value_def pow10_def hex_value_def unescape_def

lemmas stringify_eval = JSON_stringify_def quote_def is_high_surrogate_def is_low_surrogate_def
  unicode_escape_def hex_digit_def show_int_def decimal.simps

lemmas verify_eval = verifyToken_def verify_body_def decode_payload_def element_def

subsection \<open>Splitting a token\<close>

lemma split_on_not_Nil [simp]: "split_on sep s \<noteq> []"
  by (induction s) (auto split: list.splits)

lemma split_on_no_sep: "sep \<notin> set s \<Longrightarrow> split_on sep s = [s]"
  by (induction s) auto

lemma split_on_append:
  "sep \<notin> set x \<Longrightarrow> split_on sep (x @ sep # rest) = x # split_on sep rest"
  by (induction x) auto

lemma split_on_three:
  assumes "46 \<notin> set h" "46 \<notin> set p" "46 \<notin> set s"
  shows "split_on 46 (h @ [46] @ p @ [46] @ s) = [h, p, s]"
  using assms by (simp add: split_on_append split_on_no_sep)

lemma verify_body_segments:
  assumes "split_on 46 tok = h # p # s # extra"
  shows "verify_body js_less now_ms tok =
           (if h = [] \<or> p = [] \<or> s = [] then Inl InvalidTokenFormat
            else (case decode_payload p of
                    Inl e \<Rightarrow> Inl e
                  | Inr v \<Rightarrow>
                      (case get_prop v (lit ''exp'') of
                         Inl e \<Rightarrow> Inl e
                       | Inr e \<Rightarrow> if truthy e \<and> less_than js_less e (now_ms div 1000)
                                   then Inl TokenExpired else Inr v)))"
  using assms by (simp add: verify_body_def element_def Let_def)

lemma verify_body_short:
  assumes "length (split_on 46 tok) < 3"
  shows "verify_body js_less now_ms tok = Inl InvalidTokenFormat"
  using assms by (auto simp: verify_body_def element_def Let_def)

lemma segments_cases:
  obtains "length (split_on 46 tok) < 3"
  | h p s extra where "split_on 46 tok = h # p # s # extra"
proof (cases "split_on 46 tok")
  case Nil
  then show ?thesis by simp
next
  case (Cons h r1)
  then show ?thesis
  proof (cases r1)
    case Nil
    with Cons show ?thesis using that(1) by simp
  next
    case (Cons p r2)
    note c2 = this
    then show ?thesis
    proof (cases r2)
      case Nil
      with c2 \<open>split_on 46 tok = h # r1\<close> show ?thesis using that(1) by simp
    next
      case (Cons s extra)
      with c2 \<open>split_on 46 tok = h # r1\<close> show ?thesis using that(2) by simp
    qed
  qed
qed

lemma verifyToken_valid_iff:
  "authEnabled a \<Longrightarrow>
     valid (verifyToken js_less a now_ms tok) = (\<exists>v. verify_body js_less now_ms tok = Inr v)"
  by (auto simp: verifyToken_def split: sum.splits)

lemma verifyToken_segments:
  assumes "authEnabled a" and "split_on 46 tok = h # p # s # extra"
  shows "valid (verifyToken js_less a now_ms tok) \<longleftrightarrow>
           h \<noteq> [] \<and> p \<noteq> [] \<and> s \<noteq> [] \<and>
           (\<exists>v e. decode_payload p = Inr v \<and> get_prop v (lit ''exp'') = Inr e
                  \<and> \<not> (truthy e \<and> less_than js_less e (now_ms div 1000)))"
  using assms
  by (auto simp: verifyToken_valid_iff verify_body_segments split: sum.splits)

subsection \<open>The example tokens, evaluated\<close>

lemma example_token_issued:
  "generateToken example_api 1700000000123 1700000000123 (lit ''admin'') = Inr example_token"
  by (simp add: generateToken_def example_api_def example_token_def example_header_def
        example_claims_def example_tag_def stringify_eval b64_eval lit_def)

lemma example_claims_decoded:
  "decode_payload example_claims =
     Inr (JObj [(lit ''username'', JStr (lit ''admin'')), (lit ''exp'', JNum 1700086400),
                (lit ''iat'', JNum 1700000000)])"
  by (simp add: decode_payload_def example_claims_def b64_eval json_eval lit_def)


lemma example_segments_no_dot:
  "46 \<notin> set example_header" "46 \<notin> set example_claims" "46 \<notin> set example_tag"
  "46 \<notin> set (example_claims[35 := 53])"
  by (simp_all add: example_header_def example_claims_def example_tag_def lit_def)


lemma boundary_claims_decoded:
  "decode_payload boundary_claims = Inr (JObj [(lit ''exp'', JNum 1700000000)])"
  by (simp add: decode_payload_def boundary_claims_def b64_eval json_eval lit_def)

lemma epoch_claims_decoded:
  "decode_payload epoch_claims = Inr (JObj [(lit ''exp'', JNum 0)])"
  by (simp add: decode_payload_def epoch_claims_def b64_eval json_eval lit_def)

lemma boundary_split:
  "split_on 46 (lit ''x'' @ [46] @ boundary_claims @ [46] @ lit ''y'')
     = [lit ''x'', boundary_claims, lit ''y'']"
  "split_on 46 (lit ''x'' @ [46] @ epoch_claims @ [46] @ lit ''y'')
     = [lit ''x'', epoch_claims, lit ''y'']"
  by (rule split_on_three; simp add: boundary_claims_def epoch_claims_def lit_def)+

lemma boundary_nonempty:
  "lit ''x'' \<noteq> []" "lit ''y'' \<noteq> []" "boundary_claims \<noteq> []" "epoch_claims \<noteq> []"
  by (simp_all add: boundary_claims_def epoch_claims_def lit_def)

subsection \<open>Claims about \<open>verifyToken\<close>\<close>




text \<open>
  Claim C5, as stated, fails twice. A token whose \<open>exp\<close> equals the current second is
  Valid, so \<open>exp\<close> need not be strictly greater than now; and a token whose \<open>exp\<close> is
  0, far in the past, is Valid, because a falsy \<open>exp\<close> is not compared at all.
\<close>

theorem verifyToken_expiry_counterexample:
  "decode_payload boundary_claims = Inr (JObj [(lit ''exp'', JNum 1700000000)])
   \<and> \<not> (1700000000 > (1700000000999 :: int) div 1000)
   \<and> valid (verifyToken (\<lambda>v n. False) example_api 1700000000999
              (lit ''x'' @ [46] @ boundary_claims @ [46] @ lit ''y''))
   \<and> decode_payload epoch_claims = Inr (JObj [(lit ''exp'', JNum 0)])
   \<and> valid (verifyToken (\<lambda>v n. False) example_api 1700000000999
              (lit ''x'' @ [46] @ epoch_claims @ [46] @ lit ''y''))"
proof -
  have a: "authEnabled example_api" by (simp add: example_api_def)
  have "valid (verifyToken (\<lambda>v n. False) example_api 1700000000999
              (lit ''x'' @ [46] @ boundary_claims @ [46] @ lit ''y''))"
    unfolding verifyToken_segments [OF a boundary_split(1)]
    using boundary_nonempty by (simp add: boundary_claims_decoded)
  moreover have "valid (verifyToken (\<lambda>v n. False) example_api 1700000000999
              (lit ''x'' @ [46] @ epoch_claims @ [46] @ lit ''y''))"
    unfolding verifyToken_segments [OF a boundary_split(2)]
    using boundary_nonempty by (simp add: epoch_claims_decoded)
  ultimately show ?thesis
    using boundary_claims_decoded epoch_claims_decoded by simp
qed

text \<open>
  Claim C5, amended. With authentication enabled: if \<open>verifyToken\<close> returns Valid
  with claims whose \<open>exp\<close> is the integer \<open>n\<close>, then \<open>n\<close> is 0 or at least the
  current second; and every token whose claims segment decodes to claims with a
  non-zero integer \<open>exp\<close> below the current second is Invalid, whatever its header,
  its tag and its further segments are.
\<close>

theorem verifyToken_expiry:
  assumes "authEnabled a"
  shows "(verifyToken js_less a now_ms tok = \<lparr>valid = True, payload = Some v\<rparr>
            \<and> get_prop v (lit ''exp'') = Inr (Some (JNum (of_int n)))
          \<longrightarrow> n = 0 \<or> now_ms div 1000 \<le> n)
       \<and> (split_on 46 tok = h # p # s # extra
            \<and> decode_payload p = Inr v
            \<and> get_prop v (lit ''exp'') = Inr (Some (JNum (of_int n)))
            \<and> n \<noteq> 0 \<and> n < now_ms div 1000
          \<longrightarrow> verifyToken js_less a now_ms tok = \<lparr>valid = False, payload = None\<rparr>)"
proof (intro conjI impI)
  assume h: "verifyToken js_less a now_ms tok = \<lparr>valid = True, payload = Some v\<rparr>
            \<and> get_prop v (lit ''exp'') = Inr (Some (JNum (of_int n)))"
  then have body: "verify_body js_less now_ms tok = Inr v"
    using assms by (auto simp: verifyToken_def split: sum.splits)
  show "n = 0 \<or> now_ms div 1000 \<le> n"
  proof (cases rule: segments_cases [of tok])
    case 1
    with body show ?thesis by (simp add: verify_body_short)
  next
    case (2 h p s extra)
    from body h show ?thesis
      unfolding verify_body_segments [OF 2]
      by (auto split: if_splits sum.splits)
  qed
next
  assume "split_on 46 tok = h # p # s # extra
            \<and> decode_payload p = Inr v
            \<and> get_prop v (lit ''exp'') = Inr (Some (JNum (of_int n)))
            \<and> n \<noteq> 0 \<and> n < now_ms div 1000"
  then show "verifyToken js_less a now_ms tok = \<lparr>valid = False, payload = None\<rparr>"
    using assms by (simp add: verifyToken_def verify_body_segments)
qed

text \<open>The token with \<open>exp\<close> 1700000000, verified one second later.\<close>

theorem verifyToken_expiry_witness:
  "verifyToken (\<lambda>v n. False) example_api 1700000001000
       (lit ''x'' @ [46] @ boundary_claims @ [46] @ lit ''y'')
     = \<lparr>valid = False, payload = None\<rparr>
   \<and> (1700000000 :: int) < 1700000001000 div 1000"
proof -
  have a: "authEnabled example_api" by (simp add: example_api_def)
  have g: "get_prop (JObj [(lit ''exp'', JNum 1700000000)]) (lit ''exp'')
             = Inr (Some (JNum (of_int 1700000000)))"
    by (simp add: lit_def)
  from verifyToken_expiry [OF a, of "\<lambda>v n. False" 1700000001000
         "lit ''x'' @ [46] @ boundary_claims @ [46] @ lit ''y''" _ 1700000000
         "lit ''x''" boundary_claims "lit ''y''" "[]", THEN conjunct2, rule_format]
       boundary_split(1) boundary_claims_decoded g
  show ?thesis by simp
qed

text \<open>
  Claim C6, as stated, fails: a token of four segments whose header and tag are not
  base64url text is Valid when its claims segment decodes.
\<close>

theorem verifyToken_malformed_counterexample:
  "length (split_on 46 (lit ''!.e30.!.x'')) = 4
   \<and> split_on 46 (lit ''!.e30.!.x'') ! 0 = lit ''!''
   \<and> split_on 46 (lit ''!.e30.!.x'') ! 2 = lit ''!''
   \<and> atob (from_base64url (lit ''!'')) = Inl InvalidCharacterError
   \<and> verifyToken (\<lambda>v n. False) example_api 0 (lit ''!.e30.!.x'')
        = \<lparr>valid = True, payload = Some (JObj [])\<rparr>"
  by (simp add: verify_eval example_api_def lit_def b64_eval json_eval)

text \<open>
  Claim C6, amended. With authentication enabled, \<open>verifyToken\<close> returns Invalid for
  every token that has fewer than three segments, or an empty one among its first
  three, or whose second segment \<open>atob\<close> refuses (after \<open>-\<close> and \<open>_\<close> are mapped
  back), or whose decoded second segment is not JSON text or is the text of \<open>null\<close>.
  Segments after the third and the contents of the first and third are not examined.
\<close>

theorem verifyToken_rejects_malformed:
  assumes "authEnabled a"
    and "length (split_on 46 tok) < 3
         \<or> [] \<in> set (take 3 (split_on 46 tok))
         \<or> (\<exists>e. atob (from_base64url (split_on 46 tok ! 1)) = Inl e)
         \<or> (\<exists>text. atob (from_base64url (split_on 46 tok ! 1)) = Inr text
                    \<and> (JSON_parse text = None \<or> JSON_parse text = Some JNull))"
  shows "verifyToken js_less a now_ms tok = \<lparr>valid = False, payload = None\<rparr>"
proof (cases rule: segments_cases [of tok])
  case 1
  with assms(1) show ?thesis by (simp add: verifyToken_def verify_body_short)
next
  case (2 h p s extra)
  from assms(2) 2 have "h = [] \<or> p = [] \<or> s = []
      \<or> (\<exists>e. decode_payload p = Inl e) \<or> decode_payload p = Inr JNull"
    by (auto simp: decode_payload_def)
  then show ?thesis
    using assms(1) by (auto simp: verifyToken_def verify_body_segments [OF 2])
qed

text \<open>A token of two segments, and one whose claims segment is not base64 text.\<close>

theorem verifyToken_rejects_malformed_witness:
  "verifyToken (\<lambda>v n. False) example_api 0 (lit ''only.two'') = \<lparr>valid = False, payload = None\<rparr>
   \<and> verifyToken (\<lambda>v n. False) example_api 0 (lit ''a.!.c'') = \<lparr>valid = False, payload = None\<rparr>"
proof -
  have a: "authEnabled example_api" by (simp add: example_api_def)
  have 1: "length (split_on 46 (lit ''only.two'')) < 3" by (simp add: lit_def)
  have 2: "\<exists>e. atob (from_base64url (split_on 46 (lit ''a.!.c'') ! 1)) = Inl e"
    by (simp add: lit_def b64_eval)
  from verifyToken_rejects_malformed [OF a, of "lit ''only.two''"] 1
       verifyToken_rejects_malformed [OF a, of "lit ''a.!.c''"] 2
  show ?thesis by blast
qed

section \<open>Properties of the authentication middleware\<close>

text \<open>
  Claim C4. With authentication disabled the middleware lets every request through,
  whatever its Authorization header. With authentication enabled: no header gives 401
  with \<open>WWW-Authenticate: Bearer\<close>; a header whose first word is not \<open>Bearer\<close> or
  whose second word is missing or empty gives 401 (for a non-empty header value the
  plain 401 "invalid authentication information"; an empty value is answered like a
  missing header); a token \<open>verifyToken\<close> rejects gives the 401 that asks to log in
  again; and a token it accepts lets control fall through to the routes.
\<close>

theorem auth_gate_cases:
  "(\<not> authEnabled a \<longrightarrow> auth_gate js_less a now_ms hdr = None)
 \<and> (authEnabled a \<longrightarrow>
      (hdr = None \<longrightarrow>
         auth_gate js_less a now_ms hdr =
           Some \<lparr>status = 401, headers = [(lit ''WWW-Authenticate'', lit ''Bearer'')],
                 body = Text msg_please_login\<rparr>)
    \<and> (\<forall>h. hdr = Some h \<longrightarrow>
          (element (split_on 32 h) 0 \<noteq> Some (lit ''Bearer'')
             \<or> \<not> nonempty (element (split_on 32 h) 1) \<longrightarrow>
               (\<exists>r. auth_gate js_less a now_ms hdr = Some r \<and> status r = 401)
             \<and> (h \<noteq> [] \<longrightarrow> auth_gate js_less a now_ms hdr =
                    Some \<lparr>status = 401, headers = [], body = Text msg_bad_auth\<rparr>))
        \<and> (\<forall>t. element (split_on 32 h) 0 = Some (lit ''Bearer'')
                  \<and> element (split_on 32 h) 1 = Some t \<and> t \<noteq> [] \<longrightarrow>
               auth_gate js_less a now_ms hdr =
                 (if valid (verifyToken js_less a now_ms t) then None
                  else Some \<lparr>status = 401, headers = [], body = Text msg_expired\<rparr>))))"
proof -
  have bearer_nonempty: "h \<noteq> []" if "element (split_on 32 h) 0 = Some (lit ''Bearer'')" for h
    using that by (auto simp: element_def lit_def)
  show ?thesis
    by (auto simp: auth_gate_def isAuthEnabled_def Let_def element_def lit_def
             split: option.splits)
qed

text \<open>
  No header, a \<open>Token\<close> scheme, a token whose \<open>exp\<close> has passed, and the same token
  one millisecond before its \<open>exp\<close> second ends.
\<close>

theorem auth_gate_cases_witness:
  "auth_gate (\<lambda>v n. False) example_api 1700000001000 None =
     Some \<lparr>status = 401, headers = [(lit ''WWW-Authenticate'', lit ''Bearer'')],
           body = Text msg_please_login\<rparr>
   \<and> auth_gate (\<lambda>v n. False) example_api 1700000001000 (Some (lit ''Token abc'')) =
       Some \<lparr>status = 401, headers = [], body = Text msg_bad_auth\<rparr>
   \<and> auth_gate (\<lambda>v n. False) example_api 1700000001000
         (Some (lit ''Bearer x.eyJleHAiOjE3MDAwMDAwMDB9.y'')) =
       Some \<lparr>status = 401, headers = [], body = Text msg_expired\<rparr>
   \<and> auth_gate (\<lambda>v n. False) example_api 1700000000999
         (Some (lit ''Bearer x.eyJleHAiOjE3MDAwMDAwMDB9.y'')) = None"
proof -
  have a: "authEnabled example_api" by (simp add: example_api_def)
  have tok: "lit ''x.eyJleHAiOjE3MDAwMDAwMDB9.y'' = lit ''x'' @ [46] @ boundary_claims @ [46] @ lit ''y''"
    by (simp add: boundary_claims_def lit_def)
  have s1: "element (split_on 32 (lit ''Token abc'')) 0 \<noteq> Some (lit ''Bearer'')"
    by (simp add: element_def lit_def)
  have s2: "element (split_on 32 (lit ''Bearer x.eyJleHAiOjE3MDAwMDAwMDB9.y'')) 0 = Some (lit ''Bearer'')"
    "element (split_on 32 (lit ''Bearer x.eyJleHAiOjE3MDAwMDAwMDB9.y'')) 1
       = Some (lit ''x.eyJleHAiOjE3MDAwMDAwMDB9.y'')"
    "lit ''x.eyJleHAiOjE3MDAwMDAwMDB9.y'' \<noteq> []" "lit ''Token abc'' \<noteq> []"
    by (simp_all add: element_def lit_def)
  have late: "\<not> valid (verifyToken (\<lambda>v n. False) example_api 1700000001000
                      (lit ''x.eyJleHAiOjE3MDAwMDAwMDB9.y''))"
    unfolding tok verifyToken_segments [OF a boundary_split(1)]
    by (simp add: boundary_claims_decoded)
  have early: "valid (verifyToken (\<lambda>v n. False) example_api 1700000000999
                      (lit ''x.eyJleHAiOjE3MDAwMDAwMDB9.y''))"
    unfolding tok verifyToken_segments [OF a boundary_split(1)]
    using boundary_nonempty by (simp add: boundary_claims_decoded)
  have 1: "auth_gate (\<lambda>v n. False) example_api 1700000001000 None =
     Some \<lparr>status = 401, headers = [(lit ''WWW-Authenticate'', lit ''Bearer'')],
           body = Text msg_please_login\<rparr>"
    using auth_gate_cases [of example_api "\<lambda>v n. False" 1700000001000 None] a by simp
  have 2: "auth_gate (\<lambda>v n. False) example_api 1700000001000 (Some (lit ''Token abc'')) =
       Some \<lparr>status = 401, headers = [], body = Text msg_bad_auth\<rparr>"
    using auth_gate_cases [of example_api "\<lambda>v n. False" 1700000001000 "Some (lit ''Token abc'')"]
      a s1 s2(4) by simp
  have 3: "auth_gate (\<lambda>v n. False) example_api 1700000001000
         (Some (lit ''Bearer x.eyJleHAiOjE3MDAwMDAwMDB9.y'')) =
       Some \<lparr>status = 401, headers = [], body = Text msg_expired\<rparr>"
    using auth_gate_cases [of example_api "\<lambda>v n. False" 1700000001000
            "Some (lit ''Bearer x.eyJleHAiOjE3MDAwMDAwMDB9.y'')"]
      a s2 late by simp
  have 4: "auth_gate (\<lambda>v n. False) example_api 1700000000999
         (Some (lit ''Bearer x.eyJleHAiOjE3MDAwMDAwMDB9.y'')) = None"
    using auth_gate_cases [of example_api "\<lambda>v n. False" 1700000000999
            "Some (lit ''Bearer x.eyJleHAiOjE3MDAwMDAwMDB9.y'')"]
      a s2 early by simp
  from 1 2 3 4 show ?thesis by simp
qed

section \<open>Issuing tokens\<close>

subsection \<open>A secret outside Latin-1\<close>

lemma generateToken_wide_secret:
  "\<exists>c \<in> set (secret a). 255 < c \<Longrightarrow> generateToken a t_exp t_iat u = Inl InvalidCharacterError"
  by (auto simp: generateToken_def btoa_def Let_def split: sum.splits)

lemma default_secret_wide: "\<exists>c \<in> set default_secret. 255 < c"
  by (simp add: default_secret_def)

text \<open>
  Claim C10 does not hold of the code: \<open>btoa\<close> throws on the secret the constructor
  falls back to. With \<open>AUTH_SECRET\<close> unset, \<open>generateToken\<close> throws an
  InvalidCharacterError for every identity and every clock.
\<close>

theorem generateToken_default_secret_throws:
  "generateToken
     (new_api \<lparr>AUTH_ENABLED = en, AUTH_USERNAME = un, AUTH_PASSWORD = pw, AUTH_SECRET = None\<rparr>)
     t_exp t_iat u = Inl InvalidCharacterError"
  by (rule generateToken_wide_secret) (simp add: new_api_def or_default_def default_secret_wide)

text \<open>
  Claim C7 does not hold of the code, by the same defect: with authentication disabled
  and \<open>AUTH_SECRET\<close> unset, \<open>login\<close> does not return a guest token; its promise
  rejects with the InvalidCharacterError of \<open>generateToken\<close>.
\<close>

theorem login_default_secret_throws:
  "login
     (new_api \<lparr>AUTH_ENABLED = None, AUTH_USERNAME = un, AUTH_PASSWORD = pw, AUTH_SECRET = None\<rparr>)
     t_exp t_iat loginRequest = Inl InvalidCharacterError"
proof -
  let ?a = "new_api \<lparr>AUTH_ENABLED = None, AUTH_USERNAME = un, AUTH_PASSWORD = pw,
                      AUTH_SECRET = None\<rparr>"
  have "\<not> authEnabled ?a" by (simp add: new_api_def)
  moreover have "generateToken ?a t_exp t_iat (lit ''guest'') = Inl InvalidCharacterError"
    by (rule generateToken_wide_secret) (simp add: new_api_def or_default_def default_secret_wide)
  ultimately show ?thesis by (simp add: login_def)
qed

subsection \<open>base64url text\<close>

lemma b64_char_not_eq: "b64_char i \<noteq> 61"
  by (auto simp: b64_char_def)

lemma url_char_b64_char: "url_char (b64_char i) \<in> b64url_alphabet"
  by (auto simp: url_char_def b64_char_def b64url_alphabet_def)

lemma strip_trailing_eq_Cons:
  "c \<noteq> 61 \<Longrightarrow> strip_trailing_eq (c # s) = c # strip_trailing_eq s"
  by (simp add: strip_trailing_eq_def dropWhile_append)

lemma strip_trailing_eq_pad [simp]:
  "strip_trailing_eq [] = []" "strip_trailing_eq [61] = []" "strip_trailing_eq [61, 61] = []"
  by (simp_all add: strip_trailing_eq_def)

lemma to_base64url_Cons:
  "c \<noteq> 61 \<Longrightarrow> to_base64url (c # s) = url_char c # to_base64url s"
  by (simp add: to_base64url_def replace_all_def url_char_def strip_trailing_eq_Cons)

lemma to_base64url_pad [simp]:
  "to_base64url [] = []" "to_base64url [61] = []" "to_base64url [61, 61] = []"
  by (simp_all add: to_base64url_def replace_all_def)

lemma to_base64url_alphabet:
  "set (to_base64url (b64_encode bs)) \<subseteq> b64url_alphabet"
  by (induction bs rule: b64_encode.induct)
     (simp_all add: to_base64url_Cons b64_char_not_eq url_char_b64_char)

lemma alphabet_no_dot: "46 \<notin> b64url_alphabet" and alphabet_no_pad: "61 \<notin> b64url_alphabet"
  by (simp_all add: b64url_alphabet_def)

lemma btoa_Inr: "btoa s = Inr r \<Longrightarrow> r = b64_encode s"
  by (simp add: btoa_def split: if_splits)

lemma btoa_Inr_bytes: "btoa s = Inr r \<Longrightarrow> \<forall>c \<in> set s. c < 256"
  by (auto simp: btoa_def split: if_splits)

lemma to_base64url_sextets:
  "to_base64url (b64_encode bs) = map (\<lambda>v. url_char (b64_char v)) (sextets bs)"
  by (induction bs rule: b64_encode.induct)
     (simp_all add: to_base64url_Cons b64_char_not_eq)

lemma from_url_char: "from_base64url (map (\<lambda>v. url_char (b64_char v)) vs) = map b64_char vs"
  by (induction vs) (auto simp: from_base64url_def replace_all_def url_char_def b64_char_def)

lemma b64_value_char: "v < 64 \<Longrightarrow> b64_value (b64_char v) = Some v"
  by (auto simp: b64_value_def b64_char_def)

lemma those_b64_values:
  "\<forall>v \<in> set vs. v < 64 \<Longrightarrow> those (map (b64_value \<circ> b64_char) vs) = Some vs"
  by (induction vs) (simp_all add: b64_value_char)

lemma b64_char_not_ws: "\<not> is_ascii_ws (b64_char v)"
  by (auto simp: is_ascii_ws_def b64_char_def)

lemma strip_padding_none: "61 \<notin> set d \<Longrightarrow> strip_padding d = d"
proof -
  assume a: "61 \<notin> set d"
  have "(case rev d of
           c1 # c2 # r \<Rightarrow> if c1 = 61 then (if c2 = 61 then rev r else rev (c2 # r)) else d
         | _ \<Rightarrow> d) = d"
  proof (cases "rev d")
    case Nil
    then show ?thesis by simp
  next
    case (Cons c1 r)
    then have "c1 \<in> set (rev d)" by simp
    with a have "c1 \<noteq> 61" by auto
    with Cons show ?thesis by (cases r) simp_all
  qed
  then show ?thesis by (simp add: strip_padding_def)
qed

lemma atob_chars:
  assumes "\<forall>v \<in> set vs. v < 64" and "length vs mod 4 \<noteq> 1"
  shows "atob (map b64_char vs) = Inr (b64_decode vs)"
proof -
  have "filter (\<lambda>c. \<not> is_ascii_ws c) (map b64_char vs) = map b64_char vs"
    by (simp add: filter_map o_def b64_char_not_ws)
  moreover have "61 \<notin> set (map b64_char vs)"
    using b64_char_not_eq by auto
  then have "strip_padding (map b64_char vs) = map b64_char vs"
    by (rule strip_padding_none)
  ultimately show ?thesis
    using assms by (simp add: atob_def Let_def those_b64_values)
qed

lemma sextets_small: "\<forall>b \<in> set bs. b < 256 \<Longrightarrow> \<forall>v \<in> set (sextets bs). v < 64"
  by (induction bs rule: sextets.induct) auto

lemma sextets_length: "length (sextets bs) mod 4 \<noteq> 1"
  by (induction bs rule: sextets.induct) auto

lemma b64_decode_sextets: "\<forall>b \<in> set bs. b < 256 \<Longrightarrow> b64_decode (sextets bs) = bs"
  by (induction bs rule: sextets.induct) auto

lemma atob_base64url_roundtrip:
  assumes "\<forall>b \<in> set bs. b < 256"
  shows "atob (from_base64url (to_base64url (b64_encode bs))) = Inr bs"
proof -
  have "atob (map b64_char (sextets bs)) = Inr (b64_decode (sextets bs))"
    by (rule atob_chars [OF sextets_small [OF assms] sextets_length])
  then show ?thesis
    by (simp add: to_base64url_sextets from_url_char b64_decode_sextets [OF assms])
qed

subsection \<open>The shape of an issued token\<close>

lemma header_text:
  "JSON_stringify [(lit ''alg'', PStr (lit ''HS256'')), (lit ''typ'', PStr (lit ''JWT''))]
     = lit ''{\"alg\":\"HS256\",\"typ\":\"JWT\"}''"
  by (simp add: stringify_eval lit_def)

lemma header_segment:
  "to_base64url (b64_encode (lit ''{\"alg\":\"HS256\",\"typ\":\"JWT\"}''))
     = lit ''eyJhbGciOiJIUzI1NiIsInR5cCI6IkpXVCJ9''"
  by (simp add: b64_eval lit_def)

lemma claims_text:
  "JSON_stringify [(lit ''username'', PStr u), (lit ''exp'', PInt e), (lit ''iat'', PInt i)]
     = lit ''{\"username\":'' @ quote u @ lit '',\"exp\":'' @ show_int e
         @ lit '',\"iat\":'' @ show_int i @ lit ''}''"
  by (simp add: JSON_stringify_def quote_def lit_def is_high_surrogate_def is_low_surrogate_def)

text \<open>
  Claim C9, as stated, fails on the names of the claims: the claims JSON of an issued
  token has the members \<open>username\<close>, \<open>exp\<close> and \<open>iat\<close>, and none called
  \<open>subject\<close>, \<open>issuedAt\<close> or \<open>expiresAt\<close>.
\<close>

theorem generateToken_claims_counterexample:
  "generateToken example_api 1700000000123 1700000000123 (lit ''admin'')
     = Inr (example_header @ [46] @ example_claims @ [46] @ example_tag)
   \<and> decode_payload example_claims =
       Inr (JObj [(lit ''username'', JStr (lit ''admin'')), (lit ''exp'', JNum 1700086400),
                  (lit ''iat'', JNum 1700000000)])
   \<and> get_prop (JObj [(lit ''username'', JStr (lit ''admin'')), (lit ''exp'', JNum 1700086400),
                      (lit ''iat'', JNum 1700000000)]) (lit ''subject'') = Inr None
   \<and> get_prop (JObj [(lit ''username'', JStr (lit ''admin'')), (lit ''exp'', JNum 1700086400),
                      (lit ''iat'', JNum 1700000000)]) (lit ''issuedAt'') = Inr None
   \<and> get_prop (JObj [(lit ''username'', JStr (lit ''admin'')), (lit ''exp'', JNum 1700086400),
                      (lit ''iat'', JNum 1700000000)]) (lit ''expiresAt'') = Inr None"
  using example_token_issued example_claims_decoded
  by (simp add: example_token_def lit_def)

text \<open>
  Claim C9, amended. Whenever \<open>generateToken\<close> returns a token, issued within one
  clock second (both readings of \<open>Date.now()\<close> fall in the same second, the issue
  time), the token is \<open>h.c.s\<close> and splits on \<open>.\<close> into exactly these three
  segments; each segment is base64url text, so without \<open>=\<close>; \<open>h\<close> encodes
  \<^verbatim>\<open>{"alg":"HS256","typ":"JWT"}\<close>, \<open>c\<close> encodes the JSON text with the members
  \<open>username\<close> = the identity, \<open>exp\<close> = issue second + 86400 and \<open>iat\<close> = issue
  second, in this order, and \<open>s\<close> encodes the secret followed by \<open>h\<close> and \<open>c\<close>.
  "Encodes" is meant both ways: the segment is \<open>to_base64url\<close> of \<open>btoa\<close> of the
  text, and \<open>atob\<close> of \<open>from_base64url\<close> of the segment is the text again.
\<close>

theorem generateToken_format:
  assumes "generateToken a t_exp t_iat u = Inr tok"
    and "t_exp div 1000 = t_iat div 1000"
  shows "\<exists>h c s claims.
           tok = h @ [46] @ c @ [46] @ s
         \<and> split_on 46 tok = [h, c, s]
         \<and> set h \<union> set c \<union> set s \<subseteq> b64url_alphabet
         \<and> h = to_base64url (b64_encode (lit ''{\"alg\":\"HS256\",\"typ\":\"JWT\"}''))
         \<and> atob (from_base64url h) = Inr (lit ''{\"alg\":\"HS256\",\"typ\":\"JWT\"}'')
         \<and> claims = lit ''{\"username\":'' @ quote u
                      @ lit '',\"exp\":'' @ show_int (t_iat div 1000 + 86400)
                      @ lit '',\"iat\":'' @ show_int (t_iat div 1000) @ lit ''}''
         \<and> c = to_base64url (b64_encode claims)
         \<and> atob (from_base64url c) = Inr claims
         \<and> s = to_base64url (b64_encode (secret a @ h @ c))
         \<and> atob (from_base64url s) = Inr (secret a @ h @ c)"
proof -
  let ?ht = "lit ''{\"alg\":\"HS256\",\"typ\":\"JWT\"}''"
  let ?ct = "lit ''{\"username\":'' @ quote u
               @ lit '',\"exp\":'' @ show_int (t_iat div 1000 + 86400)
               @ lit '',\"iat\":'' @ show_int (t_iat div 1000) @ lit ''}''"
  let ?h = "to_base64url (b64_encode ?ht)"
  let ?c = "to_base64url (b64_encode ?ct)"
  let ?s = "to_base64url (b64_encode (secret a @ ?h @ ?c))"
  from assms obtain hp pp sp where
    b: "btoa ?ht = Inr hp" "btoa ?ct = Inr pp"
       "btoa (secret a @ to_base64url hp @ to_base64url pp) = Inr sp"
    and tok0: "tok = to_base64url hp @ [46] @ to_base64url pp @ [46] @ to_base64url sp"
    by (auto simp: generateToken_def Let_def header_text claims_text split: sum.splits)
  from b have e: "hp = b64_encode ?ht" "pp = b64_encode ?ct"
    by (auto dest: btoa_Inr)
  with b(3) have e3: "sp = b64_encode (secret a @ ?h @ ?c)"
    by (auto dest: btoa_Inr)
  from tok0 e e3 have tok: "tok = ?h @ [46] @ ?c @ [46] @ ?s" by simp
  have alpha: "set ?h \<subseteq> b64url_alphabet" "set ?c \<subseteq> b64url_alphabet" "set ?s \<subseteq> b64url_alphabet"
    by (rule to_base64url_alphabet)+
  then have "46 \<notin> set ?h" "46 \<notin> set ?c" "46 \<notin> set ?s"
    using alphabet_no_dot by blast+
  then have sp: "split_on 46 (?h @ [46] @ ?c @ [46] @ ?s) = [?h, ?c, ?s]"
    by (rule split_on_three)
  have r1: "atob (from_base64url ?h) = Inr ?ht"
    by (rule atob_base64url_roundtrip [OF btoa_Inr_bytes [OF b(1)]])
  have r2: "atob (from_base64url ?c) = Inr ?ct"
    by (rule atob_base64url_roundtrip [OF btoa_Inr_bytes [OF b(2)]])
  have r3: "atob (from_base64url ?s) = Inr (secret a @ ?h @ ?c)"
    using b(3) e by (intro atob_base64url_roundtrip btoa_Inr_bytes [of _ sp]) simp
  show ?thesis
    apply (rule exI [of _ ?h], rule exI [of _ ?c], rule exI [of _ ?s], rule exI [of _ ?ct])
    using tok sp alpha r1 r2 r3 by simp
qed

text \<open>The example token, its two clock readings 876 ms apart.\<close>

theorem generateToken_format_witness:
  "generateToken example_api 1700000000123 1700000000999 (lit ''admin'') = Inr example_token
   \<and> (1700000000123 :: int) div 1000 = 1700000000999 div 1000
   \<and> split_on 46 example_token = [example_header, example_claims, example_tag]
   \<and> 61 \<notin> set example_token"
proof -
  have g: "generateToken example_api 1700000000123 1700000000999 (lit ''admin'') = Inr example_token"
    by (simp add: generateToken_def example_api_def example_token_def example_header_def
          example_claims_def example_tag_def stringify_eval b64_eval lit_def)
  have t: "(1700000000123 :: int) div 1000 = 1700000000999 div 1000" by simp
  from generateToken_format [OF g t] obtain h c s where
    *: "example_token = h @ [46] @ c @ [46] @ s" "split_on 46 example_token = [h, c, s]"
       "set h \<union> set c \<union> set s \<subseteq> b64url_alphabet"
    by (elim exE conjE) (rule that)
  have "split_on 46 example_token = [example_header, example_claims, example_tag]"
    unfolding example_token_def by (rule split_on_three) (rule example_segments_no_dot)+
  moreover have "61 \<notin> set (h @ [46] @ c @ [46] @ s)"
    using *(3) by (auto simp: b64url_alphabet_def)
  then have "61 \<notin> set example_token"
    by (simp add: *(1))
  ultimately show ?thesis using g t by simp
qed

subsection \<open>When a token is issued, and what \<open>login\<close> answers then\<close>

text \<open>
  \<open>generateToken\<close> returns exactly when the secret and the quoted identity hold
  Latin-1 characters only; otherwise \<open>btoa\<close> throws, and nothing else can.
\<close>

lemma byte_iff: "c < 256 \<longleftrightarrow> \<not> 255 < c" for c :: nat
  by arith

lemma btoa_returns_iff: "(\<exists>r. btoa s = Inr r) \<longleftrightarrow> (\<forall>c \<in> set s. c < 256)"
  by (simp add: btoa_def byte_iff)

lemma lit_bytes: "c \<in> set (lit s) \<Longrightarrow> c < 256"
  by (auto simp: lit_def)

lemma decimal_bytes: "\<forall>c \<in> set (decimal n). c < 256"
proof (induction n rule: decimal.induct)
  case (1 n)
  show ?case
  proof (cases "n < 10")
    case True
    then show ?thesis by (simp add: decimal.simps [of n])
  next
    case False
    with 1 have "\<forall>c \<in> set (decimal (n div 10)). c < 256" by simp
    moreover have "48 + n mod 10 < 256" by (simp add: less_imp_diff_less trans_less_add2)
    ultimately show ?thesis using False by (simp add: decimal.simps [of n])
  qed
qed

lemma show_int_bytes: "\<forall>c \<in> set (show_int i). c < 256"
  using decimal_bytes by (simp add: show_int_def)

lemma alphabet_bytes: "c \<in> b64url_alphabet \<Longrightarrow> c < 256"
  by (auto simp: b64url_alphabet_def)

lemma claims_text_bytes:
  "(\<forall>c \<in> set (JSON_stringify [(lit ''username'', PStr u), (lit ''exp'', PInt e),
                                    (lit ''iat'', PInt i)]). c < 256)
     \<longleftrightarrow> (\<forall>c \<in> set (quote_chars u). c < 256)"
  using show_int_bytes [of e] show_int_bytes [of i]
  by (auto simp: claims_text quote_def dest: lit_bytes)

lemma generateToken_returns_iff:
  "(\<exists>tok. generateToken a t_exp t_iat u = Inr tok)
     \<longleftrightarrow> (\<forall>c \<in> set (secret a). c < 256) \<and> (\<forall>c \<in> set (quote_chars u). c < 256)"
proof -
  let ?ht = "lit ''{\"alg\":\"HS256\",\"typ\":\"JWT\"}''"
  let ?ct = "JSON_stringify [(lit ''username'', PStr u),
               (lit ''exp'', PInt (t_exp div 1000 + 24 * 60 * 60)), (lit ''iat'', PInt (t_iat div 1000))]"
  let ?h = "to_base64url (b64_encode ?ht)"
  let ?c = "to_base64url (b64_encode ?ct)"
  have h: "btoa ?ht = Inr (b64_encode ?ht)" by (simp add: btoa_def lit_def)
  have seg: "\<forall>c \<in> set (?h @ ?c). c < 256"
  proof
    fix c assume "c \<in> set (?h @ ?c)"
    then have "c \<in> b64url_alphabet" using to_base64url_alphabet by auto
    then show "c < 256" by (rule alphabet_bytes)
  qed
  show ?thesis
  proof (cases "\<forall>c \<in> set (quote_chars u). c < 256")
    case False
    then have "\<not> (\<forall>c \<in> set ?ct. c < 256)" by (simp add: claims_text_bytes)
    then have "btoa ?ct = Inl InvalidCharacterError" by (simp add: btoa_def byte_iff)
    with h False show ?thesis by (simp add: generateToken_def header_text Let_def)
  next
    case True
    then have "\<forall>c \<in> set ?ct. c < 256" by (simp add: claims_text_bytes)
    then have c: "btoa ?ct = Inr (b64_encode ?ct)" by (simp add: btoa_def byte_iff)
    show ?thesis
    proof (cases "\<forall>c \<in> set (secret a). c < 256")
      case s: True
      with seg have "\<forall>c \<in> set (secret a @ ?h @ ?c). c < 256" by auto
      then have "btoa (secret a @ ?h @ ?c) = Inr (b64_encode (secret a @ ?h @ ?c))"
        by (simp only: btoa_def byte_iff) simp
      with h c True s show ?thesis by (simp add: generateToken_def header_text Let_def)
    next
      case s: False
      then have "btoa (secret a @ ?h @ ?c) = Inl InvalidCharacterError"
        by (auto simp: btoa_def byte_iff)
      with h c True s show ?thesis by (simp add: generateToken_def header_text Let_def)
    qed
  qed
qed

lemma generateToken_throws_only_btoa:
  "generateToken a t_exp t_iat u = Inl e \<Longrightarrow> e = InvalidCharacterError"
  by (auto simp: generateToken_def btoa_def Let_def split: sum.splits if_splits)

text \<open>
  Where the token is issued, \<open>login\<close> decides by equality of the code units of both
  strings, and its one failure message does not depend on which of the two differed.
\<close>

lemma login_decides:
  "(\<not> authEnabled a \<and> generateToken a t_exp t_iat (lit ''guest'') = Inr tok \<longrightarrow>
      login a t_exp t_iat r = Inr \<lparr>success = True, token = Some tok, message = Some msg_auth_disabled\<rparr>)
 \<and> (authEnabled a \<and> req_username r = username a \<and> req_password r = password a
      \<and> generateToken a t_exp t_iat (req_username r) = Inr tok \<longrightarrow>
      login a t_exp t_iat r = Inr \<lparr>success = True, token = Some tok, message = Some msg_login_ok\<rparr>)
 \<and> (authEnabled a \<and> \<not> (req_username r = username a \<and> req_password r = password a) \<longrightarrow>
      login a t_exp t_iat r = Inr \<lparr>success = False, token = None, message = Some msg_login_failed\<rparr>)"
  by (auto simp: login_def)

section \<open>Properties of Order Sync\<close>

subsection \<open>The transaction\<close>









subsection \<open>A fully applied request, row by row\<close>

lemma apply_orders_rowwise:
  "apply_orders ts items rows = map (apply_to_row ts items) rows"
proof (induction items arbitrary: rows)
  case Nil
  then show ?case by (simp add: apply_orders_def apply_to_row_def)
next
  case (Cons item items)
  have "apply_orders ts (item # items) rows
          = apply_orders ts items (update_rows ts (item_order_num item) (item_id item) rows)"
    by (simp add: apply_orders_def)
  also have "\<dots> = map (apply_to_row ts items)
                      (update_rows ts (item_order_num item) (item_id item) rows)"
    by (rule Cons.IH)
  also have "\<dots> = map (apply_to_row ts (item # items)) rows"
    by (simp add: update_rows_def apply_to_row_def)
  finally show ?case .
qed

lemma row_id_apply_to_row [simp]:
  "row_id (apply_to_row ts items r) = row_id r"
  by (induction items arbitrary: r) (simp_all add: apply_to_row_def)

lemma apply_to_row_unlisted:
  "of_int (row_id r) \<notin> item_id ` set items \<Longrightarrow> apply_to_row ts items r = r"
  by (induction items arbitrary: r) (simp_all add: apply_to_row_def)


lemma apply_orders_ids [simp]:
  "map row_id (apply_orders ts items rows) = map row_id rows"
  by (simp add: apply_orders_rowwise)

lemma apply_orders_all_unlisted:
  assumes "\<forall>r \<in> set rows. of_int (row_id r) \<notin> item_id ` set items"
  shows "apply_orders ts items rows = rows"
proof -
  have "map (apply_to_row ts items) rows = map (\<lambda>r. r) rows"
    using assms by (intro map_cong refl apply_to_row_unlisted) simp
  then show ?thesis by (simp add: apply_orders_rowwise)
qed




subsection \<open>Claims about Order Sync\<close>





section \<open>Properties of the reorder routes\<close>




lemma accepts_not_null: "accepts item \<Longrightarrow> item \<noteq> JNull"
  by (auto simp: accepts_def as_order_item_def)





end
